theory Spec2Isabelle
  imports Main
begin

section \<open>JavaScript strings\<close>

text \<open>
  A JavaScript string is modelled as a \<^typ>\<open>string\<close>, one list element for each code unit.
  The program only ever compares code units with the slash, the dot and the letters of
  the extension, takes lengths and cuts at indices, so the width of a code unit plays no
  role.
\<close>

definition startsWith :: "string \<Rightarrow> string \<Rightarrow> bool" where
  \<comment> \<open>\<^verbatim>\<open>s.startsWith(search)\<close>\<close>
  "startsWith s search = (take (length search) s = search)"

definition js_index :: "nat \<Rightarrow> int \<Rightarrow> nat" where
  \<comment> \<open>how \<^verbatim>\<open>slice\<close> reads an index: a negative one counts from the end, and both ends clamp\<close>
  "js_index len k = (if k < 0 then nat (max (int len + k) 0) else min (nat k) len)"

definition slice :: "string \<Rightarrow> int \<Rightarrow> int \<Rightarrow> string" where
  \<comment> \<open>\<^verbatim>\<open>s.slice(from, to)\<close>\<close>
  "slice s from to =
     (let a = js_index (length s) from; b = js_index (length s) to
      in take (b - a) (drop a s))"

definition slice_from :: "string \<Rightarrow> int \<Rightarrow> string" where
  \<comment> \<open>\<^verbatim>\<open>s.slice(from)\<close>\<close>
  "slice_from s from = drop (js_index (length s) from) s"

fun replace_dots :: "string \<Rightarrow> string \<Rightarrow> string" where
  \<comment> \<open>\<^verbatim>\<open>s.replace(/\./g, r)\<close> for a replacement \<open>r\<close> without dollar patterns\<close>
  "replace_dots r [] = []"
| "replace_dots r (c # cs) =
     (if c = CHR ''.'' then r @ replace_dots r cs else c # replace_dots r cs)"

fun lastIndexOf :: "string \<Rightarrow> char \<Rightarrow> int" where
  \<comment> \<open>\<^verbatim>\<open>s.lastIndexOf(c)\<close>: the last index holding \<open>c\<close>, or \<open>-1\<close>\<close>
  "lastIndexOf [] c = -1"
| "lastIndexOf (x # xs) c =
     (let k = lastIndexOf xs c
      in if k \<noteq> -1 then k + 1 else if x = c then 0 else -1)"

section \<open>The \<^verbatim>\<open>path\<close> module of Node.js (POSIX flavour)\<close>

text \<open>
  The program calls \<^verbatim>\<open>path.basename\<close> and \<^verbatim>\<open>path.join\<close>. It starts through
  \<^verbatim>\<open>#!/usr/bin/env node\<close>, and on such a system \<^verbatim>\<open>path\<close> is \<^verbatim>\<open>path.posix\<close>, with the slash
  as the only separator. Both functions are modelled by following the loops of Node's
  \<^verbatim>\<open>lib/path.js\<close> index by index, so that the corner cases of the library (trailing
  slashes, a path that is nothing but the extension) are the library's own. Both throw
  a \<^verbatim>\<open>TypeError\<close> on an argument that is not a string; the arguments here are strings
  by their types.
\<close>

subsection \<open>\<^verbatim>\<open>basename\<close>\<close>

record basename_state =
  bn_start :: int
  bn_end :: int
  matchedSlash :: bool
  extIdx :: int
  firstNonSlashEnd :: int

definition basename_init :: "string \<Rightarrow> basename_state" where
  "basename_init ext =
     \<lparr>bn_start = 0, bn_end = -1, matchedSlash = True,
      extIdx = int (length ext) - 1, firstNonSlashEnd = -1\<rparr>"

text \<open>
  The loop \<^verbatim>\<open>for (i = path.length - 1; i >= 0; --i)\<close> of the branch with an extension.
  The third argument is \<open>i + 1\<close>; leaving the recursion is the \<^verbatim>\<open>break\<close>.
\<close>

fun basename_ext_loop :: "string \<Rightarrow> string \<Rightarrow> nat \<Rightarrow> basename_state \<Rightarrow> basename_state" where
  "basename_ext_loop path ext 0 s = s"
| "basename_ext_loop path ext (Suc i) s =
     (if path ! i = CHR ''/'' then
        (if \<not> matchedSlash s then s\<lparr>bn_start := int i + 1\<rparr>
         else basename_ext_loop path ext i s)
      else
        (let s1 = (if firstNonSlashEnd s = -1
                   then s\<lparr>matchedSlash := False, firstNonSlashEnd := int i + 1\<rparr>
                   else s);
             s2 = (if 0 \<le> extIdx s1 then
                     (if path ! i = ext ! nat (extIdx s1) then
                        (if extIdx s1 - 1 = -1
                         then s1\<lparr>extIdx := extIdx s1 - 1, bn_end := int i\<rparr>
                         else s1\<lparr>extIdx := extIdx s1 - 1\<rparr>)
                      else s1\<lparr>extIdx := -1, bn_end := firstNonSlashEnd s1\<rparr>)
                   else s1)
         in basename_ext_loop path ext i s2))"

text \<open>The loop of the branch without an extension.\<close>

fun basename_loop :: "string \<Rightarrow> nat \<Rightarrow> basename_state \<Rightarrow> basename_state" where
  "basename_loop path 0 s = s"
| "basename_loop path (Suc i) s =
     (if path ! i = CHR ''/'' then
        (if \<not> matchedSlash s then s\<lparr>bn_start := int i + 1\<rparr>
         else basename_loop path i s)
      else if bn_end s = -1 then
        basename_loop path i (s\<lparr>matchedSlash := False, bn_end := int i + 1\<rparr>)
      else basename_loop path i s)"

definition basename :: "string \<Rightarrow> string option \<Rightarrow> string" where
  \<comment> \<open>\<^verbatim>\<open>path.basename(path, ext)\<close>; \<open>None\<close> is the call with one argument\<close>
  "basename path ext =
     (case ext of
        Some e \<Rightarrow>
          if e \<noteq> [] \<and> length e \<le> length path then
            (if e = path then []
             else
               (let s = basename_ext_loop path e (length path) (basename_init e);
                    end' = (if bn_start s = bn_end s then firstNonSlashEnd s
                            else if bn_end s = -1 then int (length path)
                            else bn_end s)
                in slice path (bn_start s) end'))
          else
            (let s = basename_loop path (length path) (basename_init []) in
             if bn_end s = -1 then [] else slice path (bn_start s) (bn_end s))
      | None \<Rightarrow>
          (let s = basename_loop path (length path) (basename_init []) in
           if bn_end s = -1 then [] else slice path (bn_start s) (bn_end s)))"

text \<open>
  For the proofs: the state of the loop with an extension once the last \<open>j\<close> code units
  of the path have been read, when none of them is a slash. \<open>matching\<close> says that they
  agree with the end of the extension as far as the two have been compared.
\<close>

definition ext_scan_state :: "string \<Rightarrow> string \<Rightarrow> nat \<Rightarrow> basename_state" where
  "ext_scan_state path e j =
     (let m = min j (length e); matching = (take m (rev path) = take m (rev e)) in
      \<lparr>bn_start = 0,
       bn_end = (if matching
                 then (if length e \<le> j then int (length path) - int (length e) else -1)
                 else int (length path)),
       matchedSlash = (j = 0),
       extIdx = (if matching then int (length e) - 1 - int m else -1),
       firstNonSlashEnd = (if j = 0 then -1 else int (length path))\<rparr>)"

subsection \<open>\<^verbatim>\<open>normalize\<close> and \<^verbatim>\<open>join\<close>\<close>

record normalize_state =
  res :: string
  lastSegmentLength :: int
  lastSlash :: int
  dots :: int
  code :: char

definition normalize_init :: normalize_state where
  "normalize_init =
     \<lparr>res = [], lastSegmentLength = 0, lastSlash = -1, dots = 0, code = CHR 0x00\<rparr>"

text \<open>
  One turn of the loop of \<^verbatim>\<open>normalizeString\<close> at index \<open>i\<close>, once the code unit \<open>c\<close>
  for this turn has been chosen. On a slash, every way through the body, whether it
  ends in \<^verbatim>\<open>continue\<close> or falls out of the \<^verbatim>\<open>if\<close>, sets \<^verbatim>\<open>lastSlash = i; dots = 0\<close>;
  the two \<^verbatim>\<open>continue\<close> branches under \<^verbatim>\<open>dots === 2\<close> are tried first and the
  \<^verbatim>\<open>allowAboveRoot\<close> branch is what is left.
\<close>

definition normalize_step :: "string \<Rightarrow> bool \<Rightarrow> nat \<Rightarrow> char \<Rightarrow> normalize_state \<Rightarrow> normalize_state" where
  "normalize_step path allowAboveRoot i c s0 =
     (let s = s0\<lparr>code := c\<rparr> in
      if c = CHR ''/'' then
        (if lastSlash s = int i - 1 \<or> dots s = 1 then
           s\<lparr>lastSlash := int i, dots := 0\<rparr>
         else if dots s = 2 then
           (let notDotDot =
                  (length (res s) < 2 \<or> lastSegmentLength s \<noteq> 2
                   \<or> res s ! (length (res s) - 1) \<noteq> CHR ''.''
                   \<or> res s ! (length (res s) - 2) \<noteq> CHR ''.'')
            in
            if notDotDot \<and> 2 < length (res s) then
              (let lastSlashIndex = lastIndexOf (res s) CHR ''/'' in
               if lastSlashIndex = -1 then
                 s\<lparr>res := [], lastSegmentLength := 0, lastSlash := int i, dots := 0\<rparr>
               else
                 (let r = slice (res s) 0 lastSlashIndex in
                  s\<lparr>res := r,
                    lastSegmentLength := int (length r) - 1 - lastIndexOf r CHR ''/'',
                    lastSlash := int i, dots := 0\<rparr>))
            else if notDotDot \<and> length (res s) \<noteq> 0 then
              s\<lparr>res := [], lastSegmentLength := 0, lastSlash := int i, dots := 0\<rparr>
            else if allowAboveRoot then
              s\<lparr>res := res s @ (if 0 < length (res s) then ''/..'' else ''..''),
                lastSegmentLength := 2, lastSlash := int i, dots := 0\<rparr>
            else
              s\<lparr>lastSlash := int i, dots := 0\<rparr>)
         else
           s\<lparr>res := (if 0 < length (res s)
                      then res s @ ''/'' @ slice path (lastSlash s + 1) (int i)
                      else slice path (lastSlash s + 1) (int i)),
             lastSegmentLength := int i - lastSlash s - 1,
             lastSlash := int i, dots := 0\<rparr>)
      else if c = CHR ''.'' \<and> dots s \<noteq> -1 then
        s\<lparr>dots := dots s + 1\<rparr>
      else
        s\<lparr>dots := -1\<rparr>)"

text \<open>
  The loop \<^verbatim>\<open>for (i = 0; i <= path.length; ++i)\<close>: inside the string the code unit
  is read from the path; one index past the end the loop stops when the last code unit
  was a slash and otherwise runs a last turn on a slash of its own.
\<close>

function normalizeString_loop :: "string \<Rightarrow> bool \<Rightarrow> nat \<Rightarrow> normalize_state \<Rightarrow> normalize_state" where
  "normalizeString_loop path allowAboveRoot i s =
     (if i \<le> length path then
        (if i < length path then
           normalizeString_loop path allowAboveRoot (Suc i)
             (normalize_step path allowAboveRoot i (path ! i) s)
         else if code s = CHR ''/'' then s
         else
           normalizeString_loop path allowAboveRoot (Suc i)
             (normalize_step path allowAboveRoot i CHR ''/'' s))
      else s)"
  by pat_completeness auto
termination
  by (relation "measure (\<lambda>(path, allowAboveRoot, i, s). Suc (length path) - i)") auto

declare normalizeString_loop.simps [simp del]

definition normalizeString :: "string \<Rightarrow> bool \<Rightarrow> string" where
  "normalizeString path allowAboveRoot =
     res (normalizeString_loop path allowAboveRoot 0 normalize_init)"

definition normalize :: "string \<Rightarrow> string" where
  \<comment> \<open>\<^verbatim>\<open>path.normalize(path)\<close>\<close>
  "normalize path =
     (if length path = 0 then ''.''
      else
        (let isAbsolute = (path ! 0 = CHR ''/'');
             trailingSeparator = (path ! (length path - 1) = CHR ''/'');
             p = normalizeString path (\<not> isAbsolute)
         in if length p = 0 then
              (if isAbsolute then ''/'' else if trailingSeparator then ''./'' else ''.'')
            else
              (let p' = (if trailingSeparator then p @ ''/'' else p)
               in if isAbsolute then ''/'' @ p' else p')))"

text \<open>
  \<^verbatim>\<open>path.join(...args)\<close>: the non-empty arguments are glued with slashes (\<open>None\<close> is
  the \<^verbatim>\<open>undefined\<close> of "nothing glued yet") and the result is normalised.
\<close>

fun join_args :: "string option \<Rightarrow> string list \<Rightarrow> string option" where
  "join_args joined [] = joined"
| "join_args joined (arg # args) =
     (if 0 < length arg then
        (case joined of
           None \<Rightarrow> join_args (Some arg) args
         | Some j \<Rightarrow> join_args (Some (j @ ''/'' @ arg)) args)
      else join_args joined args)"

definition join :: "string list \<Rightarrow> string" where
  "join args =
     (if length args = 0 then ''.''
      else case join_args None args of None \<Rightarrow> ''.'' | Some joined \<Rightarrow> normalize joined)"

section \<open>The class \<^verbatim>\<open>Vault\<close>\<close>

text \<open>
  \<^verbatim>\<open>main\<close> builds every vault from three command-line strings. The methods test the
  third field with \<^verbatim>\<open>typeof ... !== "string"\<close>, so a vault built without it is foreseen:
  \<open>None\<close> stands for any value that is not a string.
\<close>

record Vault =
  dendronVault :: string
  logseqGraph :: string
  dendronJournalHierarchy :: "string option"

text \<open>
  What a method can hand back where the source returns either nothing or a boolean:
  \<^verbatim>\<open>return;\<close> yields \<^verbatim>\<open>undefined\<close>.
\<close>

datatype js_value = Undefined | Boolean bool

fun truthy :: "js_value \<Rightarrow> bool" where
  \<comment> \<open>the reading of a value by \<^verbatim>\<open>if (...)\<close>\<close>
  "truthy Undefined = False"
| "truthy (Boolean b) = b"

datatype error =
  Error string  \<comment> \<open>\<^verbatim>\<open>throw new Error(message)\<close>\<close>

definition dendronNodeHierarchyPosition :: "Vault \<Rightarrow> string \<Rightarrow> string" where
  "dendronNodeHierarchyPosition this dendronNodePath = basename dendronNodePath (Some ''.md'')"

definition isDendronJournalNode :: "Vault \<Rightarrow> string \<Rightarrow> js_value" where
  "isDendronJournalNode this dendronNodePath =
     (case dendronJournalHierarchy this of
        None \<Rightarrow> Undefined
      | Some hierarchy \<Rightarrow>
          (let absHierarchyPos = dendronNodeHierarchyPosition this dendronNodePath
           in Boolean (startsWith absHierarchyPos (hierarchy @ ''.''))))"

definition logseqJournalDir :: "Vault \<Rightarrow> string" where
  "logseqJournalDir this = join [logseqGraph this, ''journals'']"

definition logseqPageDir :: "Vault \<Rightarrow> string" where
  "logseqPageDir this = join [logseqGraph this, ''pages'']"

definition logseqJournalPath :: "Vault \<Rightarrow> string \<Rightarrow> error + string" where
  "logseqJournalPath this dendronNodePath =
     (case dendronJournalHierarchy this of
        None \<Rightarrow> Inl (Error ''can't template journal path without Dendron hierarchy location'')
      | Some hierarchy \<Rightarrow>
          (let absHierarchyPos = dendronNodeHierarchyPosition this dendronNodePath;
               relHierarchyPos =
                 replace_dots ''_'' (slice_from absHierarchyPos (int (length hierarchy) + 1))
           in Inr (join [logseqJournalDir this, relHierarchyPos @ ''.md''])))"

definition logseqPagePath :: "Vault \<Rightarrow> string \<Rightarrow> error + string" where
  "logseqPagePath this dendronNodePath =
     (let absHierarchyPos = dendronNodeHierarchyPosition this dendronNodePath
      in Inr (join [logseqPageDir this, replace_dots ''___'' absHierarchyPos @ ''.md'']))"

definition logseqDestPath :: "Vault \<Rightarrow> string \<Rightarrow> error + string" where
  "logseqDestPath this dendronNodePath =
     (if truthy (isDendronJournalNode this dendronNodePath)
      then logseqJournalPath this dendronNodePath
      else logseqPagePath this dendronNodePath)"

section \<open>Notions used to state the properties\<close>

text \<open>
  The number of occurrences of a substring, counted as a scan from the left that steps
  over each occurrence it finds (the count that \<^verbatim>\<open>s.split(sub).length - 1\<close> gives).
\<close>

function occurrences :: "string \<Rightarrow> string \<Rightarrow> nat" where
  "occurrences sub s =
     (if sub = [] \<or> s = [] then 0
      else if startsWith s sub then Suc (occurrences sub (drop (length sub) s))
      else occurrences sub (tl s))"
  by pat_completeness auto
termination
  by (relation "measure (\<lambda>(sub, s). length s)") auto

declare occurrences.simps [simp del]

text \<open>
  A run is a maximal stretch of dots and underscores in an identifier; the flattening
  turns it into one stretch of underscores. \<open>short_underscore_runs k s\<close> says that no
  run of \<open>s\<close> holds more than two underscores, when the run that \<open>s\<close> starts in has
  \<open>k\<close> underscores already; \<open>run_excess k s\<close> adds up, over the runs, a third of the
  underscores of the run, rounded down.
\<close>

fun run_excess :: "nat \<Rightarrow> string \<Rightarrow> nat" where
  "run_excess k [] = k div 3"
| "run_excess k (c # cs) =
     (if c = CHR ''_'' then run_excess (Suc k) cs
      else if c = CHR ''.'' then run_excess k cs
      else k div 3 + run_excess 0 cs)"

fun short_underscore_runs :: "nat \<Rightarrow> string \<Rightarrow> bool" where
  "short_underscore_runs k [] = (k \<le> 2)"
| "short_underscore_runs k (c # cs) =
     (if c = CHR ''_'' then short_underscore_runs (Suc k) cs
      else if c = CHR ''.'' then short_underscore_runs k cs
      else k \<le> 2 \<and> short_underscore_runs 0 cs)"

text \<open>
  Modelled from the spec: the program has no inverse of the page flattening. The spec
  speaks of "reversing the delimiter substitution", that is replacing every \<^verbatim>\<open>___\<close> by
  a dot, as \<^verbatim>\<open>s.replaceAll("___", ".")\<close> does from the left.
\<close>

function replaceAll :: "string \<Rightarrow> string \<Rightarrow> string \<Rightarrow> string" where
  "replaceAll sub r s =
     (if sub = [] \<or> s = [] then s
      else if startsWith s sub then r @ replaceAll sub r (drop (length sub) s)
      else hd s # replaceAll sub r (tl s))"
  by pat_completeness auto
termination
  by (relation "measure (\<lambda>(sub, r, s). length s)") auto

declare replaceAll.simps [simp del]

definition reverse_page_flattening :: "string \<Rightarrow> string" where
  "reverse_page_flattening s = replaceAll ''___'' ''.'' s"

definition isAlphanumeric :: "char \<Rightarrow> bool" where
  \<comment> \<open>an ASCII digit or letter\<close>
  "isAlphanumeric c =
     (let n = (of_char c :: nat)
      in (48 \<le> n \<and> n \<le> 57) \<or> (65 \<le> n \<and> n \<le> 90) \<or> (97 \<le> n \<and> n \<le> 122))"

definition alphanumeric_segments :: "string \<Rightarrow> bool" where
  \<comment> \<open>an identifier whose segments, the parts between dots, are alphanumeric\<close>
  "alphanumeric_segments ident = list_all (\<lambda>c. c = CHR ''.'' \<or> isAlphanumeric c) ident"

section \<open>String lemmas\<close>

lemma replace_dots_map:
  "replace_dots ''_'' s = map (\<lambda>c. if c = CHR ''.'' then CHR ''_'' else c) s"
  by (induction s) simp_all

lemma replace_dots_concat:
  "replace_dots r s = concat (map (\<lambda>c. if c = CHR ''.'' then r else [c]) s)"
  by (induction s) simp_all

lemma replace_dots_no_dot: "CHR ''.'' \<notin> set (replace_dots ''___'' s)"
  by (induction s) simp_all

lemma replace_dots_id: "CHR ''.'' \<notin> set s \<Longrightarrow> replace_dots r s = s"
  by (induction s) auto

lemma slice_from_nat: "slice_from s (int n) = drop n s"
  by (simp add: slice_from_def js_index_def min_def)

lemma slice_from_Suc: "slice_from s (int n + 1) = drop (Suc n) s"
  using slice_from_nat [of s "Suc n"] by (simp add: add.commute)

lemma occurrences_Nil: "occurrences sub [] = 0"
  by (simp add: occurrences.simps)

lemma occurrences_match: "occurrences ''___'' (''___'' @ s) = Suc (occurrences ''___'' s)"
  by (subst occurrences.simps) (simp add: startsWith_def)

lemma occurrences_skip:
  "c \<noteq> CHR ''_'' \<Longrightarrow> occurrences ''___'' (c # s) = occurrences ''___'' s"
  by (subst occurrences.simps) (simp add: startsWith_def)

lemma replaceAll_Nil: "replaceAll sub r [] = []"
  by (simp add: replaceAll.simps)

lemma replaceAll_match: "replaceAll ''___'' r (''___'' @ s) = r @ replaceAll ''___'' r s"
  by (subst replaceAll.simps) (simp add: startsWith_def)

lemma replaceAll_skip:
  "c \<noteq> CHR ''_'' \<Longrightarrow> replaceAll ''___'' r (c # s) = c # replaceAll ''___'' r s"
  by (subst replaceAll.simps) (simp add: startsWith_def)

text \<open>
  The count of \<^verbatim>\<open>___\<close> in a flattened identifier, to the right of \<open>k\<close> underscores: one
  for each dot, and one more for every three underscores of a run.
\<close>

lemma run_excess_0_iff: "run_excess k s = 0 \<longleftrightarrow> short_underscore_runs k s"
  by (induction s arbitrary: k) auto

lemma occurrences_one: 
  assumes "t = [] \<or> hd t \<noteq> CHR ''_''"
  shows "occurrences ''___'' (CHR ''_'' # t) = occurrences ''___'' t"
  using assms by (subst occurrences.simps) (cases t; auto simp: startsWith_def occurrences_Nil)

lemma occurrences_two: 
  assumes "t = [] \<or> hd t \<noteq> CHR ''_''"
  shows "occurrences ''___'' (CHR ''_'' # CHR ''_'' # t) = occurrences ''___'' t"
proof -
  have "occurrences ''___'' (CHR ''_'' # CHR ''_'' # t) = occurrences ''___'' (CHR ''_'' # t)"
    using assms by (subst occurrences.simps) (cases t; auto simp: startsWith_def)
  then show ?thesis using assms by (simp add: occurrences_one)
qed

lemma occurrences_underscores:
  assumes t: "t = [] \<or> hd t \<noteq> CHR ''_''"
  shows "occurrences ''___'' (replicate k CHR ''_'' @ t) = k div 3 + occurrences ''___'' t"
proof (induction k rule: less_induct)
  case (less k)
  consider "k = 0" | "k = 1" | "k = 2" | j where "k = j + 3"
    by atomize_elim presburger
  then show ?case
  proof cases
    case 1
    then show ?thesis by simp
  next
    case 2
    then show ?thesis using t by (simp add: occurrences_one)
  next
    case 3
    then have "replicate k CHR ''_'' = [CHR ''_'', CHR ''_'']"
      by (simp add: numeral_2_eq_2)
    then show ?thesis using t 3 by (simp add: occurrences_two)
  next
    case 4
    have "replicate k CHR ''_'' @ t = ''___'' @ (replicate j CHR ''_'' @ t)"
      unfolding 4 by (simp add: replicate_add numeral_3_eq_3 replicate_app_Cons_same)
    then have "occurrences ''___'' (replicate k CHR ''_'' @ t) =
        Suc (occurrences ''___'' (replicate j CHR ''_'' @ t))"
      by (simp only: occurrences_match)
    also have "occurrences ''___'' (replicate j CHR ''_'' @ t) = j div 3 + occurrences ''___'' t"
      using less [of j] 4 by simp
    finally show ?thesis using 4 by simp
  qed
qed

lemma occurrences_flattened:
  "occurrences ''___'' (replicate k CHR ''_'' @ replace_dots ''___'' s) =
     count_list s CHR ''.'' + run_excess k s"
proof (induction s arbitrary: k)
  case Nil
  show ?case using occurrences_underscores [of "[]" k] by (simp add: occurrences_Nil)
next
  case (Cons c cs)
  consider "c = CHR ''_''" | "c = CHR ''.''" | "c \<noteq> CHR ''_''" "c \<noteq> CHR ''.''" by blast
  then show ?case
  proof cases
    case 1
    have "replicate k CHR ''_'' @ replace_dots ''___'' (c # cs) =
        replicate (Suc k) CHR ''_'' @ replace_dots ''___'' cs"
      using 1 by (simp add: replicate_app_Cons_same)
    then have "occurrences ''___'' (replicate k CHR ''_'' @ replace_dots ''___'' (c # cs)) =
        occurrences ''___'' (replicate (Suc k) CHR ''_'' @ replace_dots ''___'' cs)"
      by (simp only:)
    also have "\<dots> = count_list cs CHR ''.'' + run_excess (Suc k) cs"
      by (rule Cons)
    finally show ?thesis using 1 by simp
  next
    case 2
    have "replicate k CHR ''_'' @ replace_dots ''___'' (c # cs) =
        ''___'' @ (replicate k CHR ''_'' @ replace_dots ''___'' cs)"
      using 2 by (simp add: replicate_app_Cons_same)
    then have "occurrences ''___'' (replicate k CHR ''_'' @ replace_dots ''___'' (c # cs)) =
        Suc (occurrences ''___'' (replicate k CHR ''_'' @ replace_dots ''___'' cs))"
      by (simp only: occurrences_match)
    also have "occurrences ''___'' (replicate k CHR ''_'' @ replace_dots ''___'' cs) =
        count_list cs CHR ''.'' + run_excess k cs"
      by (rule Cons)
    finally show ?thesis using 2 by simp
  next
    case 3
    have "occurrences ''___'' (replicate k CHR ''_'' @ replace_dots ''___'' (c # cs)) =
        k div 3 + occurrences ''___'' (c # replace_dots ''___'' cs)"
      using 3 occurrences_underscores [of "c # replace_dots ''___'' cs" k] by simp
    also have "occurrences ''___'' (c # replace_dots ''___'' cs) =
        occurrences ''___'' (replace_dots ''___'' cs)"
      using 3 by (simp add: occurrences_skip)
    also have "\<dots> = count_list cs CHR ''.'' + run_excess 0 cs"
      using Cons [of 0] by simp
    finally show ?thesis using 3 by simp
  qed
qed

lemma replaceAll_replace_dots:
  "CHR ''_'' \<notin> set s \<Longrightarrow> replaceAll ''___'' ''.'' (replace_dots ''___'' s) = s"
proof (induction s)
  case Nil
  show ?case by (simp add: replaceAll_Nil)
next
  case (Cons c cs)
  show ?case
  proof (cases "c = CHR ''.''")
    case True
    have "replace_dots ''___'' (c # cs) = ''___'' @ replace_dots ''___'' cs"
      using True by simp
    then show ?thesis using Cons True by (simp only: replaceAll_match) simp
  next
    case False
    moreover have "c \<noteq> CHR ''_''" using Cons.prems by auto
    ultimately show ?thesis using Cons by (simp add: replaceAll_skip)
  qed
qed

lemma isAlphanumeric_not_underscore: "isAlphanumeric c \<Longrightarrow> c \<noteq> CHR ''_''"
  by (auto simp: isAlphanumeric_def)

lemma alphanumeric_segments_no_underscore:
  "alphanumeric_segments s \<Longrightarrow> CHR ''_'' \<notin> set s"
  by (auto simp: alphanumeric_segments_def list_all_iff dest: isAlphanumeric_not_underscore)

section \<open>What \<^verbatim>\<open>basename\<close> returns for a path that does not end in a slash\<close>

text \<open>
  Such a path is \<open>d @ c\<close>, where the last component \<open>c\<close> is not empty and has no slash
  and \<open>d\<close> is empty or ends in a slash. First the loop without an extension.
\<close>

lemma basename_loop_skip:
  "bn_end s \<noteq> -1 \<Longrightarrow> (\<And>i. a \<le> i \<Longrightarrow> i < a + k \<Longrightarrow> path ! i \<noteq> CHR ''/'') \<Longrightarrow>
     basename_loop path (a + k) s = basename_loop path a s"
  by (induction k) simp_all

lemma basename_loop_first:
  "path ! i \<noteq> CHR ''/'' \<Longrightarrow>
     basename_loop path (Suc i) (basename_init x) =
     basename_loop path i ((basename_init x)\<lparr>matchedSlash := False, bn_end := int i + 1\<rparr>)"
  by (simp add: basename_init_def)

lemma basename_loop_component:
  assumes c: "c \<noteq> []" "CHR ''/'' \<notin> set c" and d: "d = [] \<or> last d = CHR ''/''"
  shows "basename_loop (d @ c) (length (d @ c)) (basename_init x) =
     (basename_init x)\<lparr>matchedSlash := False, bn_end := int (length (d @ c)),
        bn_start := int (length d)\<rparr>"
proof -
  let ?p = "d @ c"
  obtain k where k: "length c = Suc k" using c(1) by (cases c) auto
  have nth: "\<And>i. length d \<le> i \<Longrightarrow> i < length d + Suc k \<Longrightarrow> ?p ! i \<noteq> CHR ''/''"
  proof -
    fix i assume "length d \<le> i" "i < length d + Suc k"
    then have "?p ! i = c ! (i - length d)" "i - length d < length c"
      using k by (auto simp: nth_append)
    then show "?p ! i \<noteq> CHR ''/''"
      using c(2) nth_mem [of "i - length d" c] by metis
  qed
  let ?s = "(basename_init x)\<lparr>matchedSlash := False, bn_end := int (length d + k) + 1\<rparr>"
  have "basename_loop ?p (length ?p) (basename_init x) =
        basename_loop ?p (Suc (length d + k)) (basename_init x)"
    using k by simp
  also have "\<dots> = basename_loop ?p (length d + k) ?s"
    by (rule basename_loop_first) (rule nth, simp_all)
  also have "\<dots> = basename_loop ?p (length d) ?s"
    by (rule basename_loop_skip) (simp, rule nth, simp_all)
  also have "\<dots> = ?s\<lparr>bn_start := int (length d)\<rparr>"
  proof (cases d rule: rev_cases)
    case Nil
    then show ?thesis by (simp add: basename_init_def)
  next
    case (snoc d' y)
    with d have "y = CHR ''/''" by simp
    with snoc show ?thesis by simp
  qed
  finally show ?thesis using k by simp
qed

lemma basename_None_component:
  assumes c: "c \<noteq> []" "CHR ''/'' \<notin> set c" and d: "d = [] \<or> last d = CHR ''/''"
  shows "basename (d @ c) None = c"
  using basename_loop_component [OF assms, of "[]"]
  by (simp add: basename_def slice_def js_index_def)

text \<open>The loop with an extension, one turn and then all turns over the last component.\<close>

lemma ext_scan_state_0: "e \<noteq> [] \<Longrightarrow> ext_scan_state path e 0 = basename_init e"
  by (cases e) (simp_all add: ext_scan_state_def basename_init_def)

lemma take_Suc_eq_iff:
  assumes "j < length xs" "j < length ys"
  shows "take (Suc j) xs = take (Suc j) ys \<longleftrightarrow> take j xs = take j ys \<and> xs ! j = ys ! j"
  using assms by (simp add: take_Suc_conv_app_nth)

lemma ext_scan_step:
  assumes j: "j < length path" and ns: "path ! (length path - Suc j) \<noteq> CHR ''/''"
    and e: "e \<noteq> []"
  shows "basename_ext_loop path e (Suc (length path - Suc j)) (ext_scan_state path e j) =
         basename_ext_loop path e (length path - Suc j) (ext_scan_state path e (Suc j))"
proof -
  let ?i = "length path - Suc j"
  have pi: "path ! ?i = rev path ! j" using j by (simp add: rev_nth)
  show ?thesis
  proof (cases "j < length e")
    case True
    then have ei: "e ! (length e - Suc j) = rev e ! j" by (simp add: rev_nth)
    have mj: "min j (length e) = j" "min (Suc j) (length e) = Suc j" using True by simp_all
    have step: "take (Suc j) (rev path) = take (Suc j) (rev e) \<longleftrightarrow>
      take j (rev path) = take j (rev e) \<and> rev path ! j = rev e ! j"
      using j True by (intro take_Suc_eq_iff) simp_all
    have nat1: "nat (int (length e) - 1 - int j) = length e - Suc j" by simp
    have i1: "int ?i = int (length path) - 1 - int j" using j by simp
    show ?thesis
      using ns True j
      apply (subst basename_ext_loop.simps)
      apply (simp only: ext_scan_state_def Let_def mj step)
      apply (cases "take j (rev path) = take j (rev e)")
       apply (cases "rev path ! j = rev e ! j")
        apply (auto simp: pi ei nat1 i1 Let_def)
      apply (subgoal_tac "int (length e) = int j + 1")
       apply (simp add: algebra_simps)
      apply linarith
      done
  next
    case False
    then have mj: "min j (length e) = length e" "min (Suc j) (length e) = length e" by simp_all
    have j0: "j \<noteq> 0" using False e by (cases e) auto
    show ?thesis
      using ns False j j0
      apply (subst basename_ext_loop.simps)
      apply (simp only: ext_scan_state_def Let_def mj)
      apply (auto simp: Let_def)
      done
  qed
qed

lemma ext_scan_run:
  assumes e: "e \<noteq> []"
  shows "k \<le> length path \<Longrightarrow>
     (\<And>i. length path - k \<le> i \<Longrightarrow> i < length path \<Longrightarrow> path ! i \<noteq> CHR ''/'') \<Longrightarrow>
     basename_ext_loop path e (length path) (basename_init e) =
     basename_ext_loop path e (length path - k) (ext_scan_state path e k)"
proof (induction k)
  case 0
  show ?case using e by (simp add: ext_scan_state_0)
next
  case (Suc k)
  have "basename_ext_loop path e (length path) (basename_init e) =
        basename_ext_loop path e (length path - k) (ext_scan_state path e k)"
    using Suc.prems by (intro Suc.IH) simp_all
  also have "length path - k = Suc (length path - Suc k)"
    using Suc.prems(1) by simp
  also have "basename_ext_loop path e (Suc (length path - Suc k)) (ext_scan_state path e k) =
        basename_ext_loop path e (length path - Suc k) (ext_scan_state path e (Suc k))"
    using Suc.prems e by (intro ext_scan_step) simp_all
  finally show ?case .
qed

lemma basename_ext_loop_component:
  assumes c: "c \<noteq> []" "CHR ''/'' \<notin> set c" and d: "d = [] \<or> last d = CHR ''/''"
    and e: "e \<noteq> []"
  shows "basename_ext_loop (d @ c) e (length (d @ c)) (basename_init e) =
     (ext_scan_state (d @ c) e (length c))\<lparr>bn_start := int (length d)\<rparr>"
proof -
  let ?p = "d @ c"
  have nth: "\<And>i. length ?p - length c \<le> i \<Longrightarrow> i < length ?p \<Longrightarrow> ?p ! i \<noteq> CHR ''/''"
  proof -
    fix i assume "length ?p - length c \<le> i" "i < length ?p"
    then have "?p ! i = c ! (i - length d)" "i - length d < length c"
      by (auto simp: nth_append)
    then show "?p ! i \<noteq> CHR ''/''"
      using c(2) nth_mem [of "i - length d" c] by metis
  qed
  have "basename_ext_loop ?p e (length ?p) (basename_init e) =
        basename_ext_loop ?p e (length ?p - length c) (ext_scan_state ?p e (length c))"
    using e nth by (intro ext_scan_run) simp_all
  also have "length ?p - length c = length d" by simp
  also have "basename_ext_loop ?p e (length d) (ext_scan_state ?p e (length c)) =
        (ext_scan_state ?p e (length c))\<lparr>bn_start := int (length d)\<rparr>"
  proof (cases d rule: rev_cases)
    case Nil
    then show ?thesis by (simp add: ext_scan_state_def Let_def)
  next
    case (snoc d' y)
    with d have "y = CHR ''/''" by simp
    with snoc c(1) show ?thesis by (simp add: ext_scan_state_def Let_def)
  qed
  finally show ?thesis .
qed

lemma rev_take_eq_drop:
  assumes "length e \<le> length c"
  shows "take (min (length c) (length e)) (rev c) = take (min (length c) (length e)) (rev e)
     \<longleftrightarrow> drop (length c - length e) c = e"
proof -
  have m: "min (length c) (length e) = length e"
    using assms by simp
  have "take (length e) (rev c) = rev (drop (length c - length e) c)"
    by (simp add: take_rev)
  then show ?thesis by (simp add: m)
qed

text \<open>
  What the branch with an extension cuts out of the path: it starts at the last
  component, and \<open>bend\<close> is the \<^verbatim>\<open>end\<close> the loop leaves behind.
\<close>

lemma basename_ext_slice:
  assumes c: "c \<noteq> []" "CHR ''/'' \<notin> set c" and d: "d = [] \<or> last d = CHR ''/''"
    and e: "e \<noteq> []" and "e \<noteq> d @ c" "length e \<le> length (d @ c)"
  shows "basename (d @ c) (Some e) =
     slice (d @ c) (int (length d))
       (let bend =
          (if take (min (length c) (length e)) (rev (d @ c))
              = take (min (length c) (length e)) (rev e)
           then (if length e \<le> length c then int (length (d @ c)) - int (length e) else -1)
           else int (length (d @ c)))
        in if int (length d) = bend then int (length (d @ c))
           else if bend = -1 then int (length (d @ c)) else bend)"
proof -
  have "basename (d @ c) (Some e) =
     (let s = basename_ext_loop (d @ c) e (length (d @ c)) (basename_init e);
          end' = (if bn_start s = bn_end s then firstNonSlashEnd s
                  else if bn_end s = -1 then int (length (d @ c))
                  else bn_end s)
      in slice (d @ c) (bn_start s) end')"
    using assms(4-6) unfolding basename_def by simp
  also have "\<dots> =
     slice (d @ c) (int (length d))
       (let bend =
          (if take (min (length c) (length e)) (rev (d @ c))
              = take (min (length c) (length e)) (rev e)
           then (if length e \<le> length c then int (length (d @ c)) - int (length e) else -1)
           else int (length (d @ c)))
        in if int (length d) = bend then int (length (d @ c))
           else if bend = -1 then int (length (d @ c)) else bend)"
    unfolding basename_ext_loop_component [OF c d e] ext_scan_state_def Let_def
    using c(1) by (simp del: length_append take_append rev_append)
  finally show ?thesis .
qed

text \<open>
  The result: the last component, without the extension when it ends in the extension
  and is longer than it; and the empty string when the whole path is the extension.
\<close>

lemma basename_Some_component:
  assumes c: "c \<noteq> []" "CHR ''/'' \<notin> set c" and d: "d = [] \<or> last d = CHR ''/''"
    and e: "e \<noteq> []"
  shows "basename (d @ c) (Some e) =
     (if e = d @ c then []
      else if length e < length c \<and> drop (length c - length e) c = e
           then take (length c - length e) c
           else c)"
proof (cases "length e \<le> length (d @ c)")
  case False
  then have "length c < length e" "e \<noteq> d @ c" by auto
  with False e show ?thesis
    using basename_loop_component [OF c d, of "[]"]
    by (simp add: basename_def slice_def js_index_def)
next
  case True
  show ?thesis
  proof (cases "e = d @ c")
    case True
    then show ?thesis using e by (simp add: basename_def)
  next
    case False
    define m where "m = min (length c) (length e)"
    define matching where "matching \<longleftrightarrow> take m (rev c) = take m (rev e)"
    define bend where "bend =
      (if matching
       then (if length e \<le> length c then int (length (d @ c)) - int (length e) else -1)
       else int (length (d @ c)))"
    have tk: "take m (rev (d @ c)) = take m (rev c)" by (simp add: m_def)
    have key: "basename (d @ c) (Some e) =
      slice (d @ c) (int (length d))
        (if int (length d) = bend then int (length (d @ c))
         else if bend = -1 then int (length (d @ c)) else bend)"
      unfolding basename_ext_slice [OF c d e False True] bend_def matching_def
        m_def [symmetric] tk Let_def
      by (rule refl)
    have whole: "slice (d @ c) (int (length d)) (int (length (d @ c))) = c"
      by (simp add: slice_def js_index_def)
    have suffix: "length e \<le> length c \<Longrightarrow>
        matching \<longleftrightarrow> drop (length c - length e) c = e"
      unfolding matching_def m_def by (rule rev_take_eq_drop)
    show ?thesis
    proof (cases "length e < length c \<and> drop (length c - length e) c = e")
      case True
      then have "matching" using suffix by simp
      with True have bend: "bend = int (length (d @ c)) - int (length e)"
        by (simp add: bend_def)
      have "int (length (d @ c)) - int (length e) = int (length d + (length c - length e))"
        using True by (simp add: of_nat_diff)
      then have "slice (d @ c) (int (length d)) bend = take (length c - length e) c"
        unfolding bend by (simp add: slice_def js_index_def del: length_append of_nat_add)
      moreover have "int (length d) \<noteq> bend" "bend \<noteq> -1" using True by (simp_all add: bend)
      ultimately show ?thesis using True False key by simp
    next
      case nostrip: False
      have "bend = int (length (d @ c)) \<or> bend = -1 \<or> bend = int (length d)"
      proof (cases matching)
        case False
        then show ?thesis by (simp add: bend_def)
      next
        case True
        show ?thesis
        proof (cases "length e \<le> length c")
          case False
          with True show ?thesis by (simp add: bend_def)
        next
          case le: True
          with True suffix nostrip have "length e = length c" by auto
          with True show ?thesis by (simp add: bend_def)
        qed
      qed
      then have "(if int (length d) = bend then int (length (d @ c))
         else if bend = -1 then int (length (d @ c)) else bend) = int (length (d @ c))"
        by auto
      with key have "basename (d @ c) (Some e) =
          slice (d @ c) (int (length d)) (int (length (d @ c)))"
        by (simp only:)
      with whole have "basename (d @ c) (Some e) = c" by (simp only:)
      with nostrip False show ?thesis by auto
    qed
  qed
qed

text \<open>Every path that does not end in a slash splits in this way.\<close>

lemma last_component_split:
  assumes "p \<noteq> []" "last p \<noteq> CHR ''/''"
  obtains d c where "p = d @ c" "c \<noteq> []" "CHR ''/'' \<notin> set c" "d = [] \<or> last d = CHR ''/''"
proof -
  let ?c = "rev (takeWhile (\<lambda>x. x \<noteq> CHR ''/'') (rev p))"
  let ?d = "rev (dropWhile (\<lambda>x. x \<noteq> CHR ''/'') (rev p))"
  have split: "p = ?d @ ?c"
    by (metis rev_append rev_rev_ident takeWhile_dropWhile_id)
  have "rev p \<noteq> []" "hd (rev p) \<noteq> CHR ''/''"
    using assms by (simp_all add: hd_rev)
  then have nonempty: "?c \<noteq> []"
    by (cases "rev p") auto
  have noslash: "CHR ''/'' \<notin> set ?c"
    using set_takeWhileD [of "CHR ''/''" "\<lambda>x. x \<noteq> CHR ''/''" "rev p"] by auto
  have "?d = [] \<or> last ?d = CHR ''/''"
  proof (cases "dropWhile (\<lambda>x. x \<noteq> CHR ''/'') (rev p)")
    case Nil
    then show ?thesis by simp
  next
    case (Cons y ys)
    then have "y = CHR ''/''"
      using hd_dropWhile [of "\<lambda>x. x \<noteq> CHR ''/''" "rev p"] by auto
    with Cons show ?thesis by simp
  qed
  with split nonempty noslash show ?thesis using that by blast
qed

text \<open>
  The methods read the source path only through \<^verbatim>\<open>dendronNodeHierarchyPosition\<close>, and
  for a path that does not end in a slash the identifier is read off the final component.
\<close>

lemma logseqDestPath_same_identifier:
  assumes "dendronNodeHierarchyPosition v p = dendronNodeHierarchyPosition v q"
  shows "logseqDestPath v p = logseqDestPath v q"
  unfolding logseqDestPath_def isDendronJournalNode_def logseqJournalPath_def
    logseqPagePath_def assms
  by (rule refl)

lemma identifier_of_final_component:
  assumes "p \<noteq> []" "last p \<noteq> CHR ''/''" "p \<noteq> ''.md''"
  shows "dendronNodeHierarchyPosition v p =
     (let c = basename p None
      in if length ''.md'' < length c \<and> drop (length c - length ''.md'') c = ''.md''
         then take (length c - length ''.md'') c else c)"
proof -
  obtain d c where split:
    "p = d @ c" "c \<noteq> []" "CHR ''/'' \<notin> set c" "d = [] \<or> last d = CHR ''/''"
    using assms(1,2) by (rule last_component_split)
  have e: "''.md'' \<noteq> []" by simp
  have "basename p None = c"
    unfolding split(1) using split(2-4) by (rule basename_None_component)
  moreover have "basename p (Some ''.md'') =
     (if ''.md'' = d @ c then []
      else if length ''.md'' < length c \<and> drop (length c - length ''.md'') c = ''.md''
           then take (length c - length ''.md'') c
           else c)"
    unfolding split(1) using split(2-4) e by (rule basename_Some_component)
  moreover have "''.md'' \<noteq> d @ c" using assms(3) split(1) by simp
  ultimately show ?thesis
    by (simp only: dendronNodeHierarchyPosition_def Let_def if_False)
qed

section \<open>The two shapes of a destination path\<close>

lemma logseqJournalPath_shape:
  "logseqJournalPath \<lparr>dendronVault = d, logseqGraph = g, dendronJournalHierarchy = Some h\<rparr> p =
     Inr (join [join [g, ''journals''],
            map (\<lambda>c. if c = CHR ''.'' then CHR ''_'' else c)
              (drop (length h + 1) (basename p (Some ''.md''))) @ ''.md''])"
  by (simp add: logseqJournalPath_def logseqJournalDir_def dendronNodeHierarchyPosition_def
      replace_dots_map slice_from_Suc)

lemma logseqPagePath_shape:
  "logseqPagePath v p =
     Inr (join [join [logseqGraph v, ''pages''],
            concat (map (\<lambda>c. if c = CHR ''.'' then ''___'' else [c])
              (basename p (Some ''.md''))) @ ''.md''])"
  by (simp add: logseqPagePath_def logseqPageDir_def dendronNodeHierarchyPosition_def
      replace_dots_concat)

lemma journal_scenario_values:
  "dendronNodeHierarchyPosition
     \<lparr>dendronVault = ''/v'', logseqGraph = ''/g'', dendronJournalHierarchy = Some ''daily''\<rparr>
     ''/v/daily.2024.01.15.md'' = ''daily.2024.01.15''
   \<and> isDendronJournalNode
     \<lparr>dendronVault = ''/v'', logseqGraph = ''/g'', dendronJournalHierarchy = Some ''daily''\<rparr>
     ''/v/daily.2024.01.15.md'' = Boolean True
   \<and> logseqDestPath
     \<lparr>dendronVault = ''/v'', logseqGraph = ''/g'', dendronJournalHierarchy = Some ''daily''\<rparr>
     ''/v/daily.2024.01.15.md'' = Inr ''/g/journals/2024_01_15.md''"
  by code_simp

lemma page_scenario_values:
  "dendronNodeHierarchyPosition
     \<lparr>dendronVault = ''/v'', logseqGraph = ''/g'', dendronJournalHierarchy = Some ''daily''\<rparr>
     ''/v/projects.alpha.notes.md'' = ''projects.alpha.notes''
   \<and> isDendronJournalNode
     \<lparr>dendronVault = ''/v'', logseqGraph = ''/g'', dendronJournalHierarchy = Some ''daily''\<rparr>
     ''/v/projects.alpha.notes.md'' = Boolean False
   \<and> logseqDestPath
     \<lparr>dendronVault = ''/v'', logseqGraph = ''/g'', dendronJournalHierarchy = Some ''daily''\<rparr>
     ''/v/projects.alpha.notes.md'' = Inr ''/g/pages/projects___alpha___notes.md''"
  by code_simp

lemma root_scenario_values:
  "dendronNodeHierarchyPosition
     \<lparr>dendronVault = ''/v'', logseqGraph = ''/g'', dendronJournalHierarchy = Some ''daily''\<rparr>
     ''/v/daily.md'' = ''daily''
   \<and> logseqDestPath
     \<lparr>dendronVault = ''/v'', logseqGraph = ''/g'', dendronJournalHierarchy = Some ''daily''\<rparr>
     ''/v/daily.md'' = Inr ''/g/pages/daily.md''"
  by code_simp

lemma journal_gate:
  "truthy (isDendronJournalNode v p) \<Longrightarrow> \<exists>h. dendronJournalHierarchy v = Some h"
  by (cases "dendronJournalHierarchy v") (simp_all add: isDendronJournalNode_def)

lemma logseqJournalPath_configured:
  "dendronJournalHierarchy v = Some h \<Longrightarrow> \<exists>dest. logseqJournalPath v p = Inr dest"
  by (simp add: logseqJournalPath_def Let_def)

lemma logseqPagePath_total: "\<exists>dest. logseqPagePath v p = Inr dest"
  by (simp add: logseqPagePath_def Let_def)

section \<open>The properties\<close>

text \<open>
  C1. With journal root \<^verbatim>\<open>daily\<close> and destination root \<^verbatim>\<open>/g\<close>, the source path
  \<^verbatim>\<open>/v/daily.2024.01.15.md\<close> has the identifier \<^verbatim>\<open>daily.2024.01.15\<close>, is a journal
  member and is sent to \<^verbatim>\<open>/g/journals/2024_01_15.md\<close>. In general the journal path drops
  as many characters from the identifier as the journal root has, and one more, and
  turns each dot of what is left into one underscore.
\<close>

theorem journal_scenario:
  "dendronNodeHierarchyPosition
     \<lparr>dendronVault = ''/v'', logseqGraph = ''/g'', dendronJournalHierarchy = Some ''daily''\<rparr>
     ''/v/daily.2024.01.15.md'' = ''daily.2024.01.15''
   \<and> isDendronJournalNode
     \<lparr>dendronVault = ''/v'', logseqGraph = ''/g'', dendronJournalHierarchy = Some ''daily''\<rparr>
     ''/v/daily.2024.01.15.md'' = Boolean True
   \<and> logseqDestPath
     \<lparr>dendronVault = ''/v'', logseqGraph = ''/g'', dendronJournalHierarchy = Some ''daily''\<rparr>
     ''/v/daily.2024.01.15.md'' = Inr ''/g/journals/2024_01_15.md''
   \<and> logseqJournalPath
     \<lparr>dendronVault = d, logseqGraph = g, dendronJournalHierarchy = Some h\<rparr> p =
     Inr (join [join [g, ''journals''],
            map (\<lambda>c. if c = CHR ''.'' then CHR ''_'' else c)
              (drop (length h + 1) (basename p (Some ''.md''))) @ ''.md''])"
  using journal_scenario_values logseqJournalPath_shape [of d g h p] by blast

text \<open>
  C2. With the same vault, the source path \<^verbatim>\<open>/v/projects.alpha.notes.md\<close> has the
  identifier \<^verbatim>\<open>projects.alpha.notes\<close>, is not a journal member and is sent to
  \<^verbatim>\<open>/g/pages/projects___alpha___notes.md\<close>. In general the page path turns each dot of
  the whole identifier into three underscores.
\<close>

theorem page_scenario:
  "dendronNodeHierarchyPosition
     \<lparr>dendronVault = ''/v'', logseqGraph = ''/g'', dendronJournalHierarchy = Some ''daily''\<rparr>
     ''/v/projects.alpha.notes.md'' = ''projects.alpha.notes''
   \<and> isDendronJournalNode
     \<lparr>dendronVault = ''/v'', logseqGraph = ''/g'', dendronJournalHierarchy = Some ''daily''\<rparr>
     ''/v/projects.alpha.notes.md'' = Boolean False
   \<and> logseqDestPath
     \<lparr>dendronVault = ''/v'', logseqGraph = ''/g'', dendronJournalHierarchy = Some ''daily''\<rparr>
     ''/v/projects.alpha.notes.md'' = Inr ''/g/pages/projects___alpha___notes.md''
   \<and> logseqPagePath v p =
     Inr (join [join [logseqGraph v, ''pages''],
            concat (map (\<lambda>c. if c = CHR ''.'' then ''___'' else [c])
              (basename p (Some ''.md''))) @ ''.md''])"
  using page_scenario_values logseqPagePath_shape [of v p] by blast

text \<open>
  C3. For every source path, when the journal root is not configured the membership
  test is negative and nothing is thrown: the method has a value for every path, the
  \<^verbatim>\<open>undefined\<close> of its bare \<^verbatim>\<open>return;\<close>, which the condition of \<^verbatim>\<open>logseqDestPath\<close> reads as
  false, so that the destination is the page path.
\<close>

theorem unconfigured_never_journal:
  "dendronJournalHierarchy v = None \<Longrightarrow>
     isDendronJournalNode v p = Undefined
     \<and> \<not> truthy (isDendronJournalNode v p)
     \<and> logseqDestPath v p = logseqPagePath v p"
  by (simp add: isDendronJournalNode_def logseqDestPath_def)

theorem unconfigured_never_journal_witness:
  "dendronJournalHierarchy
     \<lparr>dendronVault = ''/v'', logseqGraph = ''/g'', dendronJournalHierarchy = None\<rparr> = None
   \<and> isDendronJournalNode
     \<lparr>dendronVault = ''/v'', logseqGraph = ''/g'', dendronJournalHierarchy = None\<rparr>
     ''/v/daily.2024.01.15.md'' = Undefined
   \<and> \<not> truthy (isDendronJournalNode
     \<lparr>dendronVault = ''/v'', logseqGraph = ''/g'', dendronJournalHierarchy = None\<rparr>
     ''/v/daily.2024.01.15.md'')"
proof -
  have h: "dendronJournalHierarchy
     \<lparr>dendronVault = ''/v'', logseqGraph = ''/g'', dendronJournalHierarchy = None\<rparr> = None"
    by simp
  from unconfigured_never_journal [OF h, of "''/v/daily.2024.01.15.md''"] h
  show ?thesis by blast
qed

text \<open>
  C4. For every configured journal root, a source path whose identifier is the journal
  root itself is not a journal member and takes the page path; with journal root
  \<^verbatim>\<open>daily\<close>, \<^verbatim>\<open>/v/daily.md\<close> is sent to \<^verbatim>\<open>/g/pages/daily.md\<close>.
\<close>

theorem root_is_not_journal_member:
  "dendronJournalHierarchy v = Some root \<Longrightarrow> dendronNodeHierarchyPosition v p = root \<Longrightarrow>
     isDendronJournalNode v p = Boolean False
     \<and> logseqDestPath v p = logseqPagePath v p
     \<and> logseqDestPath
         \<lparr>dendronVault = ''/v'', logseqGraph = ''/g'', dendronJournalHierarchy = Some ''daily''\<rparr>
         ''/v/daily.md'' = Inr ''/g/pages/daily.md''"
proof -
  assume hierarchy: "dendronJournalHierarchy v = Some root"
    and position: "dendronNodeHierarchyPosition v p = root"
  have member: "isDendronJournalNode v p = Boolean False"
    using hierarchy position by (simp add: isDendronJournalNode_def startsWith_def)
  then have "logseqDestPath v p = logseqPagePath v p"
    by (simp add: logseqDestPath_def)
  with member root_scenario_values show ?thesis by blast
qed

theorem root_is_not_journal_member_witness:
  "dendronNodeHierarchyPosition
     \<lparr>dendronVault = ''/v'', logseqGraph = ''/g'', dendronJournalHierarchy = Some ''daily''\<rparr>
     ''/v/daily.md'' = ''daily''
   \<and> isDendronJournalNode
     \<lparr>dendronVault = ''/v'', logseqGraph = ''/g'', dendronJournalHierarchy = Some ''daily''\<rparr>
     ''/v/daily.md'' = Boolean False
   \<and> logseqDestPath
     \<lparr>dendronVault = ''/v'', logseqGraph = ''/g'', dendronJournalHierarchy = Some ''daily''\<rparr>
     ''/v/daily.md'' = Inr ''/g/pages/daily.md''"
proof -
  have h1: "dendronJournalHierarchy
     \<lparr>dendronVault = ''/v'', logseqGraph = ''/g'', dendronJournalHierarchy = Some ''daily''\<rparr>
     = Some ''daily''"
    by simp
  have h2: "dendronNodeHierarchyPosition
     \<lparr>dendronVault = ''/v'', logseqGraph = ''/g'', dendronJournalHierarchy = Some ''daily''\<rparr>
     ''/v/daily.md'' = ''daily''"
    by code_simp
  from root_is_not_journal_member [OF h1 h2] h2 show ?thesis by blast
qed

text \<open>
  C5, as the claim has it: an identifier with \<open>n\<close> dots flattens to a name with
  exactly \<open>n\<close> occurrences of \<^verbatim>\<open>___\<close>. The identifier \<^verbatim>\<open>a___b\<close> has no dot, is left as it
  is and holds one occurrence.
\<close>

theorem underscores_in_identifier_are_counted:
  "count_list ''a___b'' CHR ''.'' = 0
   \<and> replace_dots ''___'' ''a___b'' = ''a___b''
   \<and> occurrences ''___'' (replace_dots ''___'' ''a___b'') = 1"
  by code_simp

text \<open>
  C5, amended. The page flattening of any identifier holds no dot. For every identifier
  that holds exactly \<open>n\<close> dots, the flattening holds exactly \<open>n\<close> occurrences of
  \<^verbatim>\<open>___\<close> if and only if no maximal stretch of dots and underscores in the identifier
  holds three or more underscores.
\<close>

theorem page_flattening_counts:
  "CHR ''.'' \<notin> set (replace_dots ''___'' ident)
   \<and> (occurrences ''___'' (replace_dots ''___'' ident) = count_list ident CHR ''.''
        \<longleftrightarrow> short_underscore_runs 0 ident)"
  using replace_dots_no_dot [of ident] occurrences_flattened [of 0 ident]
    run_excess_0_iff [of 0 ident]
  by simp

theorem page_flattening_counts_witness:
  "short_underscore_runs 0 ''my_note.sub_page''
   \<and> count_list ''my_note.sub_page'' CHR ''.'' = 1
   \<and> occurrences ''___'' (replace_dots ''___'' ''my_note.sub_page'') = 1
   \<and> CHR ''.'' \<notin> set (replace_dots ''___'' ''my_note.sub_page'')"
proof -
  have h: "short_underscore_runs 0 ''my_note.sub_page''"
    by code_simp
  have n: "count_list ''my_note.sub_page'' CHR ''.'' = 1"
    by code_simp
  from page_flattening_counts [of "''my_note.sub_page''"] h n
  show ?thesis by simp
qed

text \<open>
  C6. The destination path is computed for every vault and every source path: no call
  throws. The only \<^verbatim>\<open>throw\<close> is in the journal path, for a vault without a journal
  root, and whenever the membership test holds the journal root is there.
\<close>

theorem logseqDestPath_total:
  "(\<exists>dest. logseqDestPath v p = Inr dest)
   \<and> (truthy (isDendronJournalNode v p) \<longrightarrow>
        (\<exists>h. dendronJournalHierarchy v = Some h) \<and> (\<exists>dest. logseqJournalPath v p = Inr dest))"
proof (cases "truthy (isDendronJournalNode v p)")
  case True
  then obtain h where h: "dendronJournalHierarchy v = Some h"
    using journal_gate by blast
  then obtain dest where "logseqJournalPath v p = Inr dest"
    using logseqJournalPath_configured by blast
  with True h show ?thesis by (simp add: logseqDestPath_def)
next
  case False
  then show ?thesis using logseqPagePath_total [of v p] by (simp add: logseqDestPath_def)
qed

theorem logseqDestPath_total_witness:
  "truthy (isDendronJournalNode
     \<lparr>dendronVault = ''/v'', logseqGraph = ''/g'', dendronJournalHierarchy = Some ''daily''\<rparr>
     ''/v/daily.2024.01.15.md'')
   \<and> (\<exists>dest. logseqDestPath
     \<lparr>dendronVault = ''/v'', logseqGraph = ''/g'', dendronJournalHierarchy = Some ''daily''\<rparr>
     ''/v/daily.2024.01.15.md'' = Inr dest)
   \<and> (\<exists>dest. logseqJournalPath
     \<lparr>dendronVault = ''/v'', logseqGraph = ''/g'', dendronJournalHierarchy = Some ''daily''\<rparr>
     ''/v/daily.2024.01.15.md'' = Inr dest)"
proof -
  have h: "truthy (isDendronJournalNode
     \<lparr>dendronVault = ''/v'', logseqGraph = ''/g'', dendronJournalHierarchy = Some ''daily''\<rparr>
     ''/v/daily.2024.01.15.md'')"
    by code_simp
  from logseqDestPath_total
    [of "\<lparr>dendronVault = ''/v'', logseqGraph = ''/g'', dendronJournalHierarchy = Some ''daily''\<rparr>"
        "''/v/daily.2024.01.15.md''"] h
  show ?thesis by blast
qed

text \<open>
  C7. Called on a vault without a journal root, the journal path throws its error and
  returns no path.
\<close>

theorem logseqJournalPath_unconfigured:
  "logseqJournalPath \<lparr>dendronVault = d, logseqGraph = g, dendronJournalHierarchy = None\<rparr> p =
     Inl (Error ''can't template journal path without Dendron hierarchy location'')"
  by (simp add: logseqJournalPath_def)

text \<open>
  C8. For every identifier whose segments are alphanumeric, flattening it for a page
  and then replacing every \<^verbatim>\<open>___\<close> by a dot gives the identifier back.
\<close>

theorem page_flattening_round_trip:
  "alphanumeric_segments ident \<Longrightarrow>
     reverse_page_flattening (replace_dots ''___'' ident) = ident"
  using alphanumeric_segments_no_underscore [of ident] replaceAll_replace_dots [of ident]
  by (simp add: reverse_page_flattening_def)

theorem page_flattening_round_trip_witness:
  "alphanumeric_segments ''projects.alpha.notes''
   \<and> reverse_page_flattening (replace_dots ''___'' ''projects.alpha.notes'')
       = ''projects.alpha.notes''"
proof -
  have h: "alphanumeric_segments ''projects.alpha.notes''"
    by code_simp
  from page_flattening_round_trip [OF h] h show ?thesis by blast
qed

text \<open>
  C9. The page flattening leaves an identifier without dots as it is.
\<close>

theorem page_flattening_identity:
  "CHR ''.'' \<notin> set ident \<Longrightarrow> replace_dots ''___'' ident = ident"
  by (rule replace_dots_id)

theorem page_flattening_identity_witness:
  "CHR ''.'' \<notin> set ''daily'' \<and> replace_dots ''___'' ''daily'' = ''daily''"
proof -
  have h: "CHR ''.'' \<notin> set ''daily''"
    by simp
  from page_flattening_identity [OF h] h show ?thesis by blast
qed

text \<open>
  C10, as the claim has it: two source paths with the same final component have the
  same destination. The paths \<^verbatim>\<open>.md\<close> and \<^verbatim>\<open>/v/.md\<close> have the same final component,
  \<^verbatim>\<open>.md\<close>; \<^verbatim>\<open>path.basename\<close> answers the empty string for a path that is the extension
  and nothing else, and keeps a final component that is the extension, so the identifiers
  and the destinations differ.
\<close>

theorem same_final_component_different_destination:
  "basename ''.md'' None = ''.md''
   \<and> basename ''/v/.md'' None = ''.md''
   \<and> logseqDestPath
       \<lparr>dendronVault = ''/v'', logseqGraph = ''/g'', dendronJournalHierarchy = Some ''daily''\<rparr>
       ''.md'' = Inr ''/g/pages/.md''
   \<and> logseqDestPath
       \<lparr>dendronVault = ''/v'', logseqGraph = ''/g'', dendronJournalHierarchy = Some ''daily''\<rparr>
       ''/v/.md'' = Inr ''/g/pages/___md.md''"
  by code_simp

text \<open>
  C10, amended. For every vault and every two source paths that do not end in a slash
  and are not the bare string \<^verbatim>\<open>.md\<close>: if their final components are the same, so are
  their destinations, whatever their directories.
\<close>

theorem destination_depends_on_final_component:
  assumes "p \<noteq> []" "last p \<noteq> CHR ''/''" "p \<noteq> ''.md''"
    and "q \<noteq> []" "last q \<noteq> CHR ''/''" "q \<noteq> ''.md''"
    and "basename p None = basename q None"
  shows "logseqDestPath v p = logseqDestPath v q"
proof -
  have "dendronNodeHierarchyPosition v p = dendronNodeHierarchyPosition v q"
    unfolding identifier_of_final_component [OF assms(1-3)]
      identifier_of_final_component [OF assms(4-6)] assms(7)
    by (rule refl)
  then show ?thesis by (rule logseqDestPath_same_identifier)
qed

theorem destination_depends_on_final_component_witness:
  "basename ''/v/daily.2024.01.15.md'' None = ''daily.2024.01.15.md''
   \<and> basename ''/elsewhere/deep/daily.2024.01.15.md'' None = ''daily.2024.01.15.md''
   \<and> logseqDestPath
     \<lparr>dendronVault = ''/v'', logseqGraph = ''/g'', dendronJournalHierarchy = Some ''daily''\<rparr>
     ''/v/daily.2024.01.15.md''
   = logseqDestPath
     \<lparr>dendronVault = ''/v'', logseqGraph = ''/g'', dendronJournalHierarchy = Some ''daily''\<rparr>
     ''/elsewhere/deep/daily.2024.01.15.md''"
proof -
  have p: "''/v/daily.2024.01.15.md'' \<noteq> []" "last ''/v/daily.2024.01.15.md'' \<noteq> CHR ''/''"
    "''/v/daily.2024.01.15.md'' \<noteq> ''.md''"
    by simp_all
  have q: "''/elsewhere/deep/daily.2024.01.15.md'' \<noteq> []"
    "last ''/elsewhere/deep/daily.2024.01.15.md'' \<noteq> CHR ''/''"
    "''/elsewhere/deep/daily.2024.01.15.md'' \<noteq> ''.md''"
    by simp_all
  have bp: "basename ''/v/daily.2024.01.15.md'' None = ''daily.2024.01.15.md''"
    by code_simp
  have bq: "basename ''/elsewhere/deep/daily.2024.01.15.md'' None = ''daily.2024.01.15.md''"
    by code_simp
  have same: "basename ''/v/daily.2024.01.15.md'' None
      = basename ''/elsewhere/deep/daily.2024.01.15.md'' None"
    unfolding bp bq by (rule refl)
  from destination_depends_on_final_component [OF p q same] bp bq
  show ?thesis by blast
qed

end
